theory Spec2Isabelle
  imports Complex_Main "HOL-Library.Log_Nat"
begin

section \<open>The tables behind \<^verbatim>\<open>db\<close>\<close>

text \<open>
  \<^verbatim>\<open>server.js\<close> talks to four tables through \<^verbatim>\<open>db.run\<close>, \<^verbatim>\<open>db.get\<close> and
  \<^verbatim>\<open>db.all\<close>. A table is the list of its rows in insertion (rowid) order: an
  \<^verbatim>\<open>INSERT\<close> puts the row at the end, a \<^verbatim>\<open>SELECT\<close> without \<^verbatim>\<open>ORDER BY\<close> scans the
  list from the front, \<^verbatim>\<open>db.get\<close> is the first row of that scan, \<^verbatim>\<open>DELETE\<close> and
  \<^verbatim>\<open>UPDATE\<close> keep the order of the rows they leave. The columns are the ones the
  statements of \<^verbatim>\<open>server.js\<close> name.
\<close>

type_synonym email = string
type_synonym millis = int

record user_row =
  u_id :: nat
  u_email :: email
  u_password :: string
  u_verified :: bool

record otp_row =
  o_email :: email
  o_code :: string
  o_expires_at :: millis

record chat_row =
  c_id :: nat
  c_user_id :: nat
  c_title :: string

record message_row =
  m_chat_id :: nat
  m_role :: string
  m_content :: string

record db =
  users :: "user_row list"
  otps :: "otp_row list"
  chats :: "chat_row list"
  messages :: "message_row list"

definition empty_db :: db where
  "empty_db = \<lparr>users = [], otps = [], chats = [], messages = []\<rparr>"

datatype error =
    DuplicateEmail
  | SessionNotFound
  | UpstreamError
  | MailFailure

text \<open>The row id a table hands to the next insert (\<^verbatim>\<open>result.lastID\<close>).\<close>

definition next_id :: "nat list \<Rightarrow> nat" where
  "next_id ids = Suc (fold max ids 0)"

text \<open>
  \<^verbatim>\<open>INSERT INTO users (email, password) VALUES (?,?)\<close>.
  Modelled from the spec: the schema of \<^verbatim>\<open>db.js\<close> is missing; the account service
  is \<^verbatim>\<open>register(email, password) \<rightarrow> ok | DuplicateEmail\<close>, and the handler's
  \<^verbatim>\<open>catch\<close> answers "Email already used", so the insert fails when a row with this
  email exists. A fresh row is not verified.
\<close>

definition insert_user :: "db \<Rightarrow> email \<Rightarrow> string \<Rightarrow> error + db" where
  "insert_user d email hash =
     (if email \<in> set (map u_email (users d)) then Inl DuplicateEmail
      else Inr (d\<lparr>users := users d @
             [\<lparr>u_id = next_id (map u_id (users d)), u_email = email,
               u_password = hash, u_verified = False\<rparr>]\<rparr>))"

text \<open>\<^verbatim>\<open>SELECT * FROM users WHERE email=?\<close> through \<^verbatim>\<open>db.get\<close>.\<close>

definition get_user :: "db \<Rightarrow> email \<Rightarrow> user_row option" where
  "get_user d email = find (\<lambda>u. u_email u = email) (users d)"

text \<open>\<^verbatim>\<open>UPDATE users SET verified=1 WHERE email=?\<close>.\<close>

definition verify_user :: "db \<Rightarrow> email \<Rightarrow> db" where
  "verify_user d email =
     d\<lparr>users := map (\<lambda>u. if u_email u = email then u\<lparr>u_verified := True\<rparr> else u) (users d)\<rparr>"

text \<open>\<^verbatim>\<open>DELETE FROM otps WHERE email=?\<close>.\<close>

definition delete_otps :: "db \<Rightarrow> email \<Rightarrow> db" where
  "delete_otps d email = d\<lparr>otps := filter (\<lambda>r. o_email r \<noteq> email) (otps d)\<rparr>"

text \<open>\<^verbatim>\<open>INSERT INTO otps (email, code, expires_at) VALUES (?,?,?)\<close>.\<close>

definition insert_otp :: "db \<Rightarrow> email \<Rightarrow> string \<Rightarrow> millis \<Rightarrow> db" where
  "insert_otp d email code expires =
     d\<lparr>otps := otps d @ [\<lparr>o_email = email, o_code = code, o_expires_at = expires\<rparr>]\<rparr>"

text \<open>\<^verbatim>\<open>SELECT * FROM otps WHERE email=? AND code=?\<close> through \<^verbatim>\<open>db.get\<close>.\<close>

definition get_otp :: "db \<Rightarrow> email \<Rightarrow> string \<Rightarrow> otp_row option" where
  "get_otp d email code = find (\<lambda>r. o_email r = email \<and> o_code r = code) (otps d)"

text \<open>\<^verbatim>\<open>INSERT INTO chats (user_id, title) VALUES (?,?)\<close>, with the new row's id.\<close>

definition insert_chat :: "db \<Rightarrow> nat \<Rightarrow> string \<Rightarrow> nat \<times> db" where
  "insert_chat d uid title =
     (let i = next_id (map c_id (chats d))
      in (i, d\<lparr>chats := chats d @ [\<lparr>c_id = i, c_user_id = uid, c_title = title\<rparr>]\<rparr>))"

text \<open>
  \<^verbatim>\<open>INSERT INTO messages (chat_id, role, content) VALUES (?,?,?)\<close>.
  Modelled from the spec: the schema of \<^verbatim>\<open>db.js\<close> is missing; the message store's
  \<^verbatim>\<open>append(sessionId, role, content)\<close> fails with \<^verbatim>\<open>NotFound\<close> if sessionId does not
  reference an existing session, and otherwise is a durable insert, visible to
  subsequent reads in insertion order.
\<close>

definition insert_message :: "db \<Rightarrow> nat \<Rightarrow> string \<Rightarrow> string \<Rightarrow> error + db" where
  "insert_message d chatId role content =
     (if chatId \<in> set (map c_id (chats d))
      then Inr (d\<lparr>messages := messages d @
             [\<lparr>m_chat_id = chatId, m_role = role, m_content = content\<rparr>]\<rparr>)
      else Inl SessionNotFound)"

text \<open>\<^verbatim>\<open>SELECT role, content FROM messages WHERE chat_id=?\<close> through \<^verbatim>\<open>db.all\<close>.\<close>

definition select_messages :: "db \<Rightarrow> nat \<Rightarrow> (string \<times> string) list" where
  "select_messages d chatId =
     map (\<lambda>m. (m_role m, m_content m)) (filter (\<lambda>m. m_chat_id m = chatId) (messages d))"

section \<open>JavaScript numbers\<close>

text \<open>
  A JavaScript number is an IEEE 754 binary64 value. The values of
  \<^verbatim>\<open>send-otp\<close> are finite and far below \<open>2 ^ 1024\<close>, so a number is the rational it
  denotes and each arithmetic operation rounds the exact result to the nearest
  binary64 value, ties to the even significand. \<open>binade x\<close> is the exponent \<open>e\<close>
  with \<open>2 ^ e \<le> x < 2 ^ (e + 1)\<close>, not below the subnormal exponent \<open>-1022\<close>; the
  binary64 values of that binade are the multiples of \<open>ulp x = 2 ^ (e - 52)\<close>.
\<close>

definition binade :: "rat \<Rightarrow> int" where
  "binade x =
     max (- 1022)
       (if 1 \<le> x then int (floorlog 2 (nat \<lfloor>x\<rfloor>)) - 1
        else - int (floorlog 2 (nat (\<lceil>1 / x\<rceil> - 1))))"

definition ulp :: "rat \<Rightarrow> rat" where
  "ulp x = 2 powi (binade x - 52)"

definition ties_to_even :: "rat \<Rightarrow> int" where
  "ties_to_even y =
     (let f = \<lfloor>y\<rfloor>; d = y - of_int f
      in if d < 1 / 2 \<or> (d = 1 / 2 \<and> even f) then f else f + 1)"

definition round64 :: "rat \<Rightarrow> rat" where
  "round64 x =
     (if x = 0 then 0
      else if x < 0 then - (of_int (ties_to_even (- x / ulp (- x))) * ulp (- x))
      else of_int (ties_to_even (x / ulp x)) * ulp x)"

text \<open>A rational is a number of JavaScript when rounding leaves it alone.\<close>

definition is_double :: "rat \<Rightarrow> bool" where
  "is_double x = (round64 x = x)"

definition js_add :: "rat \<Rightarrow> rat \<Rightarrow> rat" where
  "js_add a b = round64 (a + b)"

definition js_mul :: "rat \<Rightarrow> rat \<Rightarrow> rat" where
  "js_mul a b = round64 (a * b)"

text \<open>\<^verbatim>\<open>Math.floor\<close> is exact.\<close>

definition Math_floor :: "rat \<Rightarrow> int" where
  "Math_floor x = \<lfloor>x\<rfloor>"

text \<open>
  \<^verbatim>\<open>toString\<close> of an integral number below \<open>10 ^ 21\<close>: its decimal digits, with a
  minus sign when negative.
\<close>

definition digit :: "nat \<Rightarrow> char" where
  "digit k = ''0123456789'' ! (k mod 10)"

function digits :: "nat \<Rightarrow> string" where
  "digits n = (if n < 10 then [digit n] else digits (n div 10) @ [digit (n mod 10)])"
  by pat_completeness auto
termination
  by (relation "measure id") auto

declare digits.simps [simp del]

definition toString :: "int \<Rightarrow> string" where
  "toString i = (if i < 0 then CHR ''-'' # digits (nat (- i)) else digits (nat i))"

section \<open>The handlers of \<^verbatim>\<open>server.js\<close>\<close>

text \<open>
  A handler takes the tables and the fields of the request, and returns what it
  did to the response together with the tables it leaves. \<^verbatim>\<open>res.json\<close> is
  \<open>Replied\<close> with the status (200 unless \<^verbatim>\<open>res.status\<close> set it); \<open>Ended\<close> is
  \<^verbatim>\<open>res.end()\<close> of the streamed response; \<open>Rejected\<close> is an \<^verbatim>\<open>await\<close> that threw
  outside any \<^verbatim>\<open>try\<close>, which ends the handler on the spot; \<open>Unauthenticated\<close> is the
  \<^verbatim>\<open>auth\<close> middleware refusing the request before the handler runs. The handlers
  \<^verbatim>\<open>GET /ping\<close> and \<^verbatim>\<open>GET /api/chats\<close> write to no table and are left out.
\<close>

record payload =
  p_id :: nat
  p_email :: email

datatype json =
    JOk
  | JError string
  | JToken payload
  | JChatId nat
  | JRows "(string \<times> string) list"

datatype outcome =
    Replied nat json
  | Ended
  | Rejected error
  | Unauthenticated

text \<open>
  \<^verbatim>\<open>POST /api/register\<close>. \<^verbatim>\<open>bcrypt.hash(password, 10)\<close> is the parameter
  \<open>bcrypt_hash\<close>.
\<close>

definition register :: "(string \<Rightarrow> string) \<Rightarrow> db \<Rightarrow> email \<Rightarrow> string \<Rightarrow> outcome \<times> db" where
  "register bcrypt_hash d email password =
     (let hash = bcrypt_hash password
      in case insert_user d email hash of
           Inr d' \<Rightarrow> (Replied 200 JOk, d')
         | Inl e \<Rightarrow> (Replied 400 (JError ''Email already used''), d))"

text \<open>
  \<^verbatim>\<open>POST /api/send-otp\<close>. \<open>random\<close> is what \<^verbatim>\<open>Math.random()\<close> returned, \<open>now\<close> what
  \<^verbatim>\<open>Date.now()\<close> returned, \<open>mail_ok\<close> whether \<^verbatim>\<open>mailer.sendMail\<close> resolved. Times
  are integral milliseconds, far below \<open>2 ^ 53\<close>, so \<^verbatim>\<open>Date.now() + 5 * 60 * 1000\<close> is
  exact and is computed on integers.
\<close>

definition otp_code :: "rat \<Rightarrow> string" where
  "otp_code random = toString (Math_floor (js_add 100000 (js_mul random 900000)))"

definition send_otp :: "db \<Rightarrow> email \<Rightarrow> rat \<Rightarrow> millis \<Rightarrow> bool \<Rightarrow> outcome \<times> db" where
  "send_otp d email random now mail_ok =
     (let code = otp_code random;
          expires = now + 5 * 60 * 1000;
          d1 = delete_otps d email;
          d2 = insert_otp d1 email code expires
      in if mail_ok then (Replied 200 JOk, d2) else (Rejected MailFailure, d2))"

text \<open>\<^verbatim>\<open>POST /api/verify-otp\<close>.\<close>

definition verify_otp :: "db \<Rightarrow> email \<Rightarrow> string \<Rightarrow> millis \<Rightarrow> outcome \<times> db" where
  "verify_otp d email code now =
     (case get_otp d email code of
        None \<Rightarrow> (Replied 400 (JError ''OTP invalid / expired''), d)
      | Some otp \<Rightarrow>
          if o_expires_at otp < now
          then (Replied 400 (JError ''OTP invalid / expired''), d)
          else (Replied 200 JOk, delete_otps (verify_user d email) email))"

text \<open>
  \<^verbatim>\<open>POST /api/login\<close>. \<^verbatim>\<open>bcrypt.compare\<close> is the parameter \<open>bcrypt_compare\<close>; the
  token \<^verbatim>\<open>jwt.sign\<close> returns is the payload it signs.
\<close>

definition login :: "(string \<Rightarrow> string \<Rightarrow> bool) \<Rightarrow> db \<Rightarrow> email \<Rightarrow> string \<Rightarrow> outcome" where
  "login bcrypt_compare d email password =
     (case get_user d email of
        None \<Rightarrow> Replied 400 (JError ''User not found'')
      | Some user \<Rightarrow>
          if \<not> u_verified user then Replied 403 (JError ''Email not verified'')
          else if \<not> bcrypt_compare password (u_password user)
          then Replied 400 (JError ''Wrong password'')
          else Replied 200 (JToken \<lparr>p_id = u_id user, p_email = u_email user\<rparr>))"

text \<open>
  The \<^verbatim>\<open>auth\<close> middleware.
  Modelled from the spec: \<^verbatim>\<open>auth.js\<close> is missing; the endpoints behind it require a
  valid caller identity resolved from a session token (the payload \<^verbatim>\<open>login\<close>
  signed, read by the handlers as \<^verbatim>\<open>req.user\<close>), and a request without one is
  answered 401 before the handler runs.
\<close>

datatype bearer =
    NoToken
  | BadToken
  | Signed payload

definition auth :: "bearer \<Rightarrow> payload option" where
  "auth t = (case t of Signed user \<Rightarrow> Some user | _ \<Rightarrow> None)"

text \<open>\<^verbatim>\<open>POST /api/chat\<close>.\<close>

definition create_chat :: "db \<Rightarrow> bearer \<Rightarrow> outcome \<times> db" where
  "create_chat d t =
     (case auth t of
        None \<Rightarrow> (Unauthenticated, d)
      | Some user \<Rightarrow>
          (case insert_chat d (p_id user) ''New Chat'' of
             (lastID, d') \<Rightarrow> (Replied 200 (JChatId lastID), d')))"

text \<open>\<^verbatim>\<open>GET /api/messages/:chatId\<close>.\<close>

definition get_messages :: "db \<Rightarrow> bearer \<Rightarrow> nat \<Rightarrow> outcome" where
  "get_messages d t chatId =
     (case auth t of
        None \<Rightarrow> Unauthenticated
      | Some user \<Rightarrow> Replied 200 (JRows (select_messages d chatId)))"

subsection \<open>\<^verbatim>\<open>POST /api/chat-stream/:chatId\<close>\<close>

text \<open>
  The response object as the relay uses it: the headers set, the chunks handed to
  the socket in order, and whether \<^verbatim>\<open>res.end()\<close> was called.
\<close>

record channel =
  headers :: "(string \<times> string) list"
  written :: "string list"
  ended :: bool

definition fresh_channel :: channel where
  "fresh_channel = \<lparr>headers = [], written = [], ended = False\<rparr>"

definition setHeader :: "channel \<Rightarrow> string \<Rightarrow> string \<Rightarrow> channel" where
  "setHeader res name v = res\<lparr>headers := headers res @ [(name, v)]\<rparr>"

definition originalWrite :: "channel \<Rightarrow> string \<Rightarrow> channel" where
  "originalWrite res chunk = res\<lparr>written := written res @ [chunk]\<rparr>"

text \<open>
  The replaced \<^verbatim>\<open>res.write\<close>: \<^verbatim>\<open>full += chunk; originalWrite.call(res, chunk)\<close>, on
  the pair of the accumulator \<^verbatim>\<open>full\<close> and the response.
\<close>

definition res_write :: "string \<times> channel \<Rightarrow> string \<Rightarrow> string \<times> channel" where
  "res_write s chunk = (case s of (full, res) \<Rightarrow> (full @ chunk, originalWrite res chunk))"

text \<open>
  What the provider does on one request: the fragments it yields, in order, and
  whether the stream then breaks instead of completing.
\<close>

record upstream =
  fragments :: "string list"
  fails :: bool

text \<open>
  \<^verbatim>\<open>streamChat(res, history)\<close>.
  Modelled from the spec: \<^verbatim>\<open>openai.js\<close> is missing; the completion client opens
  one streaming request with the history and hands every fragment it receives to
  \<^verbatim>\<open>res.write\<close>, in arrival order; the stream ends normally, or it fails with
  \<^verbatim>\<open>UpstreamError\<close> after the fragments already yielded have been written; it
  does not retry. \<open>client\<close> is the provider, \<open>method\<close> the \<^verbatim>\<open>write\<close> method of the
  \<^verbatim>\<open>res\<close> it is given.
\<close>

definition streamChat ::
  "((string \<times> string) list \<Rightarrow> upstream) \<Rightarrow> ('s \<Rightarrow> string \<Rightarrow> 's) \<Rightarrow> 's \<Rightarrow>
     (string \<times> string) list \<Rightarrow> 's \<times> error option" where
  "streamChat client method s history =
     (let up = client history
      in (fold (\<lambda>fragment acc. method acc fragment) (fragments up) s,
          if fails up then Some UpstreamError else None))"

text \<open>
  What one call of the relay leaves behind: how the handler ended, the tables,
  the response, and the histories handed to \<^verbatim>\<open>streamChat\<close> (one per call of it).
\<close>

record relay =
  result :: outcome
  store :: db
  response :: channel
  asked :: "(string \<times> string) list list"

definition chat_stream ::
  "((string \<times> string) list \<Rightarrow> upstream) \<Rightarrow> db \<Rightarrow> bearer \<Rightarrow> nat \<Rightarrow> string \<Rightarrow> relay" where
  "chat_stream client d t chatId message =
     (case auth t of
        None \<Rightarrow> \<lparr>result = Unauthenticated, store = d, response = fresh_channel, asked = []\<rparr>
      | Some user \<Rightarrow>
          (let res = setHeader (setHeader fresh_channel
                       ''Content-Type'' ''text/plain; charset=utf-8'')
                       ''Transfer-Encoding'' ''chunked''
           in case insert_message d chatId ''user'' message of
                Inl e \<Rightarrow> \<lparr>result = Rejected e, store = d, response = res, asked = []\<rparr>
              | Inr d1 \<Rightarrow>
                  (let history = select_messages d1 chatId
                   in case streamChat client res_write ([], res) history of
                        ((full, res'), Some e) \<Rightarrow>
                          \<lparr>result = Rejected e, store = d1, response = res', asked = [history]\<rparr>
                      | ((full, res'), None) \<Rightarrow>
                          (case insert_message d1 chatId ''assistant'' full of
                             Inl e \<Rightarrow>
                               \<lparr>result = Rejected e, store = d1, response = res',
                                asked = [history]\<rparr>
                           | Inr d2 \<Rightarrow>
                               \<lparr>result = Ended, store = d2, response = res'\<lparr>ended := True\<rparr>,
                                asked = [history]\<rparr>))))"

section \<open>Runs of the server\<close>

text \<open>
  The requests that reach the handlers above, each with what the outside world
  answered while it was served, and the tables after serving a list of them one
  after the other from a given start.
\<close>

datatype request =
    Register email string
  | SendOtp email rat millis bool
  | VerifyOtp email string millis
  | Login email string
  | CreateChat bearer
  | ChatStream "(string \<times> string) list \<Rightarrow> upstream" bearer nat string
  | GetMessages bearer nat

fun serve :: "(string \<Rightarrow> string) \<Rightarrow> db \<Rightarrow> request \<Rightarrow> db" where
  "serve h d (Register email password) = snd (register h d email password)"
| "serve h d (SendOtp email random now mail_ok) = snd (send_otp d email random now mail_ok)"
| "serve h d (VerifyOtp email code now) = snd (verify_otp d email code now)"
| "serve h d (Login email password) = d"
| "serve h d (CreateChat t) = snd (create_chat d t)"
| "serve h d (ChatStream client t chatId message) = store (chat_stream client d t chatId message)"
| "serve h d (GetMessages t chatId) = d"

fun serve_all :: "(string \<Rightarrow> string) \<Rightarrow> db \<Rightarrow> request list \<Rightarrow> db" where
  "serve_all h d [] = d"
| "serve_all h d (r # rs) = serve_all h (serve h d r) rs"

text \<open>Appending a sequence of messages: one \<open>insert_message\<close> each, in order.\<close>

fun append_all :: "db \<Rightarrow> (nat \<times> string \<times> string) list \<Rightarrow> error + db" where
  "append_all d [] = Inr d"
| "append_all d ((chatId, role, content) # ms) =
     (case insert_message d chatId role content of
        Inl e \<Rightarrow> Inl e
      | Inr d' \<Rightarrow> append_all d' ms)"

text \<open>The row an appended message becomes.\<close>

definition row_of :: "nat \<times> string \<times> string \<Rightarrow> message_row" where
  "row_of m = (case m of (c, r, x) \<Rightarrow> \<lparr>m_chat_id = c, m_role = r, m_content = x\<rparr>)"

section \<open>Sample data\<close>

text \<open>
  Two accounts, and one chat of the first with the history \<open>[{user, "hi"}]\<close>; a
  provider that answers \<open>["I am ", "fine, thanks"]\<close>, and one whose stream breaks
  after the same two fragments.
\<close>

definition alice :: payload where
  "alice = \<lparr>p_id = 1, p_email = ''a@example.com''\<rparr>"

definition bob :: payload where
  "bob = \<lparr>p_id = 2, p_email = ''b@example.com''\<rparr>"

definition sample_db :: db where
  "sample_db =
     \<lparr>users =
        [\<lparr>u_id = 1, u_email = ''a@example.com'', u_password = ''hash-a'', u_verified = True\<rparr>,
         \<lparr>u_id = 2, u_email = ''b@example.com'', u_password = ''hash-b'', u_verified = True\<rparr>,
         \<lparr>u_id = 3, u_email = ''c@example.com'', u_password = ''hash-c'', u_verified = False\<rparr>],
      otps = [],
      chats = [\<lparr>c_id = 1, c_user_id = 1, c_title = ''New Chat''\<rparr>],
      messages = [\<lparr>m_chat_id = 1, m_role = ''user'', m_content = ''hi''\<rparr>]\<rparr>"

definition more_messages :: "(nat \<times> string \<times> string) list" where
  "more_messages = [(1, ''user'', ''how are you''), (1, ''assistant'', ''fine'')]"

definition fine_client :: "(string \<times> string) list \<Rightarrow> upstream" where
  "fine_client history = \<lparr>fragments = [''I am '', ''fine, thanks''], fails = False\<rparr>"

definition broken_client :: "(string \<times> string) list \<Rightarrow> upstream" where
  "broken_client history = \<lparr>fragments = [''I am '', ''fine, thanks''], fails = True\<rparr>"

text \<open>
  The tables after a code was issued for the third account at time 1000 with
  \<^verbatim>\<open>Math.random()\<close> returning 0, and after that code was verified at time 2000.
\<close>

definition issued_db :: db where
  "issued_db = snd (send_otp sample_db ''c@example.com'' 0 1000 True)"

definition verified_db :: db where
  "verified_db = snd (verify_otp issued_db ''c@example.com'' (otp_code 0) 2000)"

definition same_string :: "string \<Rightarrow> string \<Rightarrow> bool" where
  "same_string password hash = (password = hash)"

section \<open>Rounding to binary64\<close>

subsection \<open>Ties to even, and the binade of a number\<close>

lemma ties_ge: "of_int m \<le> y \<Longrightarrow> m \<le> ties_to_even y"
proof -
  assume "of_int m \<le> y"
  then have "m \<le> \<lfloor>y\<rfloor>" by (simp add: le_floor_iff)
  then show ?thesis by (simp add: ties_to_even_def Let_def)
qed

lemma ties_le: "y \<le> of_int m \<Longrightarrow> ties_to_even y \<le> m"
proof -
  assume y: "y \<le> of_int m"
  then have f: "\<lfloor>y\<rfloor> \<le> m" by (simp add: floor_le_iff) 
  show ?thesis
  proof (cases "\<lfloor>y\<rfloor> = m")
    case True
    with y have "y - of_int \<lfloor>y\<rfloor> \<le> 0" by simp
    then have "y - of_int \<lfloor>y\<rfloor> < 1 / 2" by simp
    with True show ?thesis by (simp add: ties_to_even_def Let_def)
  next
    case False
    with f have "\<lfloor>y\<rfloor> + 1 \<le> m" by simp
    then show ?thesis by (simp add: ties_to_even_def Let_def)
  qed
qed

lemma ties_lt: "y < of_int m - 1 / 2 \<Longrightarrow> ties_to_even y \<le> m - 1"
proof -
  assume y: "y < of_int m - 1 / 2"
  then have "y < of_int m" by simp
  then have f: "\<lfloor>y\<rfloor> \<le> m - 1" by (simp add: floor_less_iff)
  show ?thesis
  proof (cases "\<lfloor>y\<rfloor> = m - 1")
    case True
    with y have "y - of_int \<lfloor>y\<rfloor> < 1 / 2" by simp
    with True show ?thesis by (simp add: ties_to_even_def Let_def)
  next
    case False
    with f have "\<lfloor>y\<rfloor> + 1 \<le> m - 1" by simp
    then show ?thesis by (simp add: ties_to_even_def Let_def)
  qed
qed

lemma ties_int: "ties_to_even (of_int m) = m"
  by (simp add: ties_to_even_def)

lemma binade_ge_one:
  assumes "1 \<le> x"
  shows "binade x = int (floorlog 2 (nat \<lfloor>x\<rfloor>)) - 1"
  using assms by (simp add: binade_def)

lemma binade_bounds:
  assumes "1 \<le> x"
  shows "0 \<le> binade x" and "2 ^ nat (binade x) \<le> x" and "x < 2 ^ (nat (binade x) + 1)"
proof -
  let ?n = "nat \<lfloor>x\<rfloor>"
  let ?k = "floorlog 2 ?n"
  from assms have n: "0 < ?n" by simp
  from floorlog_bounds [OF n, of 2] have lo: "2 ^ (?k - 1) \<le> ?n" and hi: "?n < 2 ^ ?k"
    by simp_all
  from n have k: "0 < ?k" by (simp add: floorlog_def)
  from k show e0: "0 \<le> binade x" using assms by (simp add: binade_ge_one)
  from k have e: "nat (binade x) = ?k - 1" using assms by (simp add: binade_ge_one)
  from lo have "(2::int) ^ (?k - 1) \<le> int ?n" by (metis of_nat_le_iff of_nat_numeral of_nat_power)
  with assms have "(2::int) ^ (?k - 1) \<le> \<lfloor>x\<rfloor>" by simp
  then have "of_int ((2::int) ^ (?k - 1)) \<le> x" by (simp only: le_floor_iff)
  with e show "2 ^ nat (binade x) \<le> x" by simp
  from hi have "int ?n < (2::int) ^ ?k" by (metis of_nat_less_iff of_nat_numeral of_nat_power)
  with assms have "\<lfloor>x\<rfloor> < (2::int) ^ ?k" by simp
  then have "x < of_int ((2::int) ^ ?k)" by (simp only: floor_less_iff)
  with e k show "x < 2 ^ (nat (binade x) + 1)" by simp
qed

lemma binade_eq:
  assumes "2 ^ k \<le> x" and "x < 2 ^ (k + 1)"
  shows "binade x = int k"
proof -
  have one: "(1::rat) \<le> 2 ^ k" by simp
  from one assms(1) have x: "1 \<le> x" by (rule order_trans)
  note b = binade_bounds [OF x]
  from b(2) assms(2) have "(2::rat) ^ nat (binade x) < 2 ^ (k + 1)" by simp
  then have 1: "nat (binade x) < k + 1" by (rule power_less_imp_less_exp [rotated]) simp
  from b(3) assms(1) have "(2::rat) ^ k < 2 ^ (nat (binade x) + 1)" by simp
  then have 2: "k < nat (binade x) + 1" by (rule power_less_imp_less_exp [rotated]) simp
  from 1 2 b(1) show ?thesis by simp
qed

lemma binade_below:
  assumes "0 < x" and "x < 2 ^ (k + 1)"
  shows "binade x \<le> int k"
proof (cases "1 \<le> x")
  case True
  note b = binade_bounds [OF True]
  from b(2) assms(2) have "(2::rat) ^ nat (binade x) < 2 ^ (k + 1)" by simp
  then have "nat (binade x) < k + 1" by (rule power_less_imp_less_exp [rotated]) simp
  with b(1) show ?thesis by simp
next
  case False
  then show ?thesis by (simp add: binade_def)
qed

lemma binade_fraction:
  assumes "0 < x" and "x < 1"
  shows "binade x \<le> - 1" and "x < 2 powi (binade x + 1)"
proof -
  let ?m = "nat (\<lceil>1 / x\<rceil> - 1)"
  let ?k = "floorlog 2 ?m"
  from assms have "1 < 1 / x" by simp
  then have c: "2 \<le> \<lceil>1 / x\<rceil>" by (simp add: le_ceiling_iff) 
  then have m: "0 < ?m" by simp
  from m have k: "0 < ?k" by (simp add: floorlog_def)
  from assms k show "binade x \<le> - 1" by (simp add: binade_def)
  from floorlog_bounds [OF m, of 2] have "2 ^ (?k - 1) \<le> ?m" by simp
  then have "(2::int) ^ (?k - 1) \<le> int ?m" by (metis of_nat_le_iff of_nat_numeral of_nat_power)
  moreover from c have "0 \<le> \<lceil>1 / x\<rceil> - 1" by linarith
  then have "int ?m = \<lceil>1 / x\<rceil> - 1" by (rule nat_0_le)
  ultimately have "(2::int) ^ (?k - 1) \<le> \<lceil>1 / x\<rceil> - 1" by (simp only:)
  then have "(2::int) ^ (?k - 1) < \<lceil>1 / x\<rceil>" by simp
  then have "of_int ((2::int) ^ (?k - 1)) < 1 / x" by (simp only: less_ceiling_iff)
  then have "(2::rat) ^ (?k - 1) < 1 / x" by simp
  with assms(1) have "x * 2 ^ (?k - 1) < 1" by (simp add: field_simps)
  then have "x < 1 / 2 ^ (?k - 1)" by (simp add: field_simps)
  also have "1 / 2 ^ (?k - 1) = (2::rat) powi (- int (?k - 1))"
    by (simp add: power_int_minus_divide)
  also have "\<dots> = 2 powi (- int ?k + 1)" using k by (simp add: of_nat_diff)
  also have "\<dots> \<le> 2 powi (binade x + 1)"
    using assms by (intro power_int_increasing) (simp_all add: binade_def)
  finally show "x < 2 powi (binade x + 1)" .
qed

lemma binade_upper:
  assumes "0 < x"
  shows "x < 2 powi (binade x + 1)"
proof (cases "1 \<le> x")
  case True
  note b = binade_bounds [OF True]
  from b(1) have "(2::rat) powi (binade x + 1) = 2 ^ (nat (binade x) + 1)"
    by (simp add: power_int_def nat_add_distrib)
  with b(3) show ?thesis by simp
next
  case False
  with assms binade_fraction(2) [of x] show ?thesis by simp
qed

subsection \<open>Rounding stays on the right side of a grid point\<close>

lemma ulp_pos: "0 < ulp x"
  by (simp add: ulp_def)

lemma round64_pos: "0 < x \<Longrightarrow> round64 x = of_int (ties_to_even (x / ulp x)) * ulp x"
  by (simp add: round64_def)

lemma round64_le_grid:
  assumes "0 < x" and "x \<le> of_int m * ulp x"
  shows "round64 x \<le> of_int m * ulp x"
proof -
  from assms(2) ulp_pos [of x] have "x / ulp x \<le> of_int m"
    by (simp add: pos_divide_le_eq)
  then have "ties_to_even (x / ulp x) \<le> m" by (rule ties_le)
  then have "(of_int (ties_to_even (x / ulp x)) :: rat) \<le> of_int m" by simp
  with ulp_pos [of x] have "of_int (ties_to_even (x / ulp x)) * ulp x \<le> of_int m * ulp x"
    by (simp add: mult_right_mono)
  with assms(1) show ?thesis by (simp add: round64_pos)
qed

lemma round64_ge_grid:
  assumes "0 < x" and "of_int m * ulp x \<le> x"
  shows "of_int m * ulp x \<le> round64 x"
proof -
  from assms(2) ulp_pos [of x] have "of_int m \<le> x / ulp x"
    by (simp add: pos_le_divide_eq)
  then have "m \<le> ties_to_even (x / ulp x)" by (rule ties_ge)
  then have "(of_int m :: rat) \<le> of_int (ties_to_even (x / ulp x))" by simp
  with ulp_pos [of x] have "of_int m * ulp x \<le> of_int (ties_to_even (x / ulp x)) * ulp x"
    by (simp add: mult_right_mono)
  with assms(1) show ?thesis by (simp add: round64_pos)
qed

lemma round64_lt_grid:
  assumes "0 < x" and "x < (of_int m - 1 / 2) * ulp x"
  shows "round64 x \<le> of_int (m - 1) * ulp x"
proof -
  from assms(2) ulp_pos [of x] have "x / ulp x < of_int m - 1 / 2"
    by (simp add: pos_divide_less_eq)
  then have "ties_to_even (x / ulp x) \<le> m - 1" by (rule ties_lt)
  then have "(of_int (ties_to_even (x / ulp x)) :: rat) \<le> of_int (m - 1)"
    by (simp only: of_int_le_iff)
  with ulp_pos [of x] have "of_int (ties_to_even (x / ulp x)) * ulp x \<le> of_int (m - 1) * ulp x"
    by (simp add: mult_right_mono)
  with assms(1) show ?thesis by (simp add: round64_pos)
qed

lemma round64_nonneg:
  assumes "0 \<le> x"
  shows "0 \<le> round64 x"
proof (cases "x = 0")
  case True
  then show ?thesis by (simp add: round64_def)
next
  case False
  with assms have x: "0 < x" by simp
  then have "of_int 0 * ulp x \<le> x" by simp
  from round64_ge_grid [OF x this] show ?thesis by simp
qed

lemma round64_upper:
  assumes "0 < x"
  shows "round64 x \<le> 2 powi (binade x + 1)"
proof -
  have split: "(2::rat) powi (binade x + 1) = of_int (2 ^ 53) * ulp x"
  proof -
    have "binade x + 1 = 53 + (binade x - 52)" by simp
    then have "(2::rat) powi (binade x + 1) = 2 powi (53 + (binade x - 52))" by (simp only:)
    also have "\<dots> = 2 powi 53 * 2 powi (binade x - 52)"
      by (rule power_int_add) simp
    finally show ?thesis by (simp add: ulp_def)
  qed
  from binade_upper [OF assms] have "x \<le> 2 powi (binade x + 1)" by simp
  then have "x \<le> of_int (2 ^ 53) * ulp x" by (simp only: split)
  from round64_le_grid [OF assms this] show ?thesis by (simp only: split)
qed

lemma ulp_19:
  assumes "2 ^ 19 \<le> x" and "x < 2 ^ 20"
  shows "ulp x = 1 / 2 ^ 33"
proof -
  from assms have "binade x = int 19" by (intro binade_eq) simp_all
  then show ?thesis by (simp add: ulp_def power_int_minus_divide)
qed

lemma round64_small:
  assumes "0 < x" and "x < 2 ^ 19"
  shows "round64 x \<le> 2 ^ 19"
proof -
  from assms have "binade x \<le> int 18" by (intro binade_below) simp_all
  then have "(2::rat) powi (binade x + 1) \<le> 2 powi 19"
    by (intro power_int_increasing) simp_all
  with round64_upper [OF assms(1)] show ?thesis by simp
qed

lemma double_below_one:
  assumes "is_double r" and "0 \<le> r" and "r < 1"
  shows "r \<le> 1 - 1 / 2 ^ 53"
proof (cases "r = 0")
  case True
  then show ?thesis by simp
next
  case False
  with assms(2) have r: "0 < r" by simp
  note b = binade_fraction [OF r assms(3)]
  show ?thesis
  proof (cases "binade r = - 1")
    case True
    then have u: "ulp r = 1 / 2 ^ 53" by (simp add: ulp_def power_int_minus_divide)
    from assms(1) r have "r = of_int (ties_to_even (r / ulp r)) * ulp r"
      by (simp add: is_double_def round64_pos)
    then obtain k :: int where "r = of_int k * ulp r" ..
    then have rk: "r = of_int k / 2 ^ 53" by (simp add: u)
    with assms(3) have "(of_int k :: rat) < 2 ^ 53" by (simp add: field_simps)
    then have "(of_int k :: rat) < of_int (2 ^ 53)" by simp
    then have "k < 2 ^ 53" by (simp only: of_int_less_iff)
    then have "k \<le> 2 ^ 53 - 1" by simp
    then have "(of_int k :: rat) \<le> of_int (2 ^ 53 - 1)" by (simp only: of_int_le_iff)
    then have "(of_int k :: rat) / 2 ^ 53 \<le> of_int (2 ^ 53 - 1) / 2 ^ 53"
      by (simp add: divide_right_mono)
    with rk show ?thesis by simp
  next
    case False
    with b(1) have "binade r + 1 \<le> - 1" by simp
    then have "(2::rat) powi (binade r + 1) \<le> 2 powi (- 1)"
      by (intro power_int_increasing) simp_all
    with b(2) have "r < 2 powi (- 1)" by simp
    then have "r < 1 / 2" by (simp add: power_int_minus_divide)
    then show ?thesis by simp
  qed
qed

lemma product_bound:
  assumes "0 \<le> r" and "r \<le> 1 - 1 / 2 ^ 53"
  shows "0 \<le> js_mul r 900000" and "js_mul r 900000 \<le> 900000 - 1 / 2 ^ 33"
proof -
  let ?x = "r * 900000"
  from assms(1) have x0: "0 \<le> ?x" by simp
  from round64_nonneg [OF x0] show "0 \<le> js_mul r 900000" by (simp add: js_mul_def)
  from assms(2) have xu: "?x \<le> 900000 - 900000 / 2 ^ 53" by simp
  show "js_mul r 900000 \<le> 900000 - 1 / 2 ^ 33"
  proof (cases "?x = 0")
    case True
    then show ?thesis by (simp add: js_mul_def round64_def)
  next
    case False
    with x0 have x: "0 < ?x" by simp
    show ?thesis
    proof (cases "?x < 2 ^ 19")
      case True
      from round64_small [OF x True] show ?thesis by (simp add: js_mul_def)
    next
      case False
      then have lo: "2 ^ 19 \<le> ?x" by simp
      from xu have hi: "?x < 2 ^ 20" by simp
      note u = ulp_19 [OF lo hi]
      from xu have "?x < (of_int (900000 * 2 ^ 33) - 1 / 2) * ulp ?x"
        by (simp add: u)
      from round64_lt_grid [OF x this] show ?thesis
        by (simp add: js_mul_def u)
    qed
  qed
qed

lemma sum_bound:
  assumes "0 \<le> p" and "p \<le> 900000 - 1 / 2 ^ 33"
  shows "100000 \<le> js_add 100000 p" and "js_add 100000 p \<le> 1000000 - 1 / 2 ^ 33"
proof -
  let ?y = "100000 + p"
  from assms(1) have y: "0 < ?y" and y1: "1 \<le> ?y" and ylo: "100000 \<le> ?y" by simp_all
  from assms(2) have yhi: "?y \<le> 1000000 - 1 / 2 ^ 33" by simp
  then have y20: "?y < 2 ^ (19 + 1)" by simp
  from binade_below [OF y y20] have e: "binade ?y \<le> 19" by simp
  show "100000 \<le> js_add 100000 p"
  proof -
    let ?n = "nat (52 - binade ?y)"
    have "(2::rat) powi (52 - binade ?y) * 2 powi (binade ?y - 52) = 2 powi ((52 - binade ?y) + (binade ?y - 52))"
      by (rule power_int_add [symmetric]) simp
    then have "(2::rat) powi (52 - binade ?y) * ulp ?y = 1" by (simp add: ulp_def)
    moreover from e have "(2::rat) powi (52 - binade ?y) = 2 ^ ?n" by (simp add: power_int_def)
    ultimately have one: "(2::rat) ^ ?n * ulp ?y = 1" by simp
    have "of_int (100000 * 2 ^ ?n) * ulp ?y = 100000 * ((2::rat) ^ ?n * ulp ?y)" by simp
    with one have grid: "of_int (100000 * 2 ^ ?n) * ulp ?y = 100000" by (simp only: mult_1_right)
    with ylo have "of_int (100000 * 2 ^ ?n) * ulp ?y \<le> ?y" by simp
    from round64_ge_grid [OF y this] grid show ?thesis by (simp add: js_add_def)
  qed
  show "js_add 100000 p \<le> 1000000 - 1 / 2 ^ 33"
  proof (cases "?y < 2 ^ 19")
    case True
    from round64_small [OF y True] show ?thesis by (simp add: js_add_def)
  next
    case False
    then have lo: "2 ^ 19 \<le> ?y" by simp
    from y20 have hi: "?y < 2 ^ 20" by simp
    note u = ulp_19 [OF lo hi]
    from yhi have "?y \<le> of_int (1000000 * 2 ^ 33 - 1) * ulp ?y" by (simp add: u)
    from round64_le_grid [OF y this] show ?thesis by (simp add: js_add_def u)
  qed
qed

text \<open>
  A known value as a check of the rounding: the number nearest to one tenth is
  \<open>3602879701896397 / 2 ^ 55\<close>.
\<close>

lemma binade_tenth: "binade (1 / 10) = - 4"
  by (simp add: binade_def compute_floorlog)

lemma ulp_tenth: "ulp (1 / 10) = 1 / 2 ^ 56"
  unfolding ulp_def binade_tenth by (simp add: power_int_minus_divide)

lemma round64_tenth: "round64 (1 / 10) = 3602879701896397 / 2 ^ 55"
proof -
  have f: "\<lfloor>(1 / 10 :: rat) / (1 / 2 ^ 56)\<rfloor> = 7205759403792793"
    by (simp add: floor_eq_iff)
  have "ties_to_even ((1 / 10 :: rat) / (1 / 2 ^ 56)) = 7205759403792794"
    unfolding ties_to_even_def Let_def f by simp
  then show ?thesis
    unfolding round64_def ulp_tenth by simp
qed

subsection \<open>Decimal digits\<close>

lemma digits_nonempty: "digits n \<noteq> []"
  by (subst digits.simps) simp

lemma length_digits:
  "10 ^ k \<le> n \<Longrightarrow> n < 10 ^ Suc k \<Longrightarrow> length (digits n) = Suc k"
proof (induction k arbitrary: n)
  case 0
  then show ?case by (subst digits.simps) simp
next
  case (Suc k)
  from Suc.prems(1) have big: "\<not> n < 10"
    by (metis One_nat_def le_simps(3) not_less one_le_numeral one_le_power order.trans power_Suc mult.right_neutral mult_le_mono2 not_less_eq_eq)
  from Suc.prems have "10 ^ k \<le> n div 10" and "n div 10 < 10 ^ Suc k"
    by (simp_all add: less_mult_imp_div_less le_div_geq div_le_mono mult.commute)
  then have "length (digits (n div 10)) = Suc k" by (rule Suc.IH)
  with big show ?case by (subst digits.simps) simp
qed

lemma digit_nonzero:
  assumes "0 < n" and "n < 10"
  shows "digit n \<noteq> CHR ''0''"
proof
  assume "digit n = CHR ''0''"
  with assms(2) have same: "''0123456789'' ! n = ''0123456789'' ! 0"
    by (simp add: digit_def)
  have d: "distinct ''0123456789''"
    by simp
  from assms(2) have "n < length ''0123456789''" and "0 < length ''0123456789''"
    by simp_all
  with d same have "n = 0"
    by (simp only: nth_eq_iff_index_eq)
  with assms(1) show False
    by simp
qed

lemma digit_decimal: "digit k \<in> set ''0123456789''"
proof -
  have "k mod 10 < length ''0123456789''" by simp
  then show ?thesis unfolding digit_def by (rule nth_mem)
qed

lemma hd_digits: "0 < n \<Longrightarrow> hd (digits n) \<noteq> CHR ''0''"
proof (induction n rule: digits.induct)
  case (1 n)
  show ?case
  proof (cases "n < 10")
    case True
    with "1.prems" show ?thesis by (subst digits.simps) (simp add: digit_nonzero)
  next
    case False
    then have "0 < n div 10" by (simp add: div_greater_zero_iff)
    with False "1.IH" have "hd (digits (n div 10)) \<noteq> CHR ''0''" by simp
    with False show ?thesis by (subst digits.simps) (simp add: digits_nonempty)
  qed
qed

lemma set_digits: "set (digits n) \<subseteq> set ''0123456789''"
proof (induction n rule: digits.induct)
  case (1 n)
  show ?case
  proof (cases "n < 10")
    case True
    with digit_decimal [of n] show ?thesis by (subst digits.simps) simp
  next
    case False
    with "1.IH" have "set (digits (n div 10)) \<subseteq> set ''0123456789''" by simp
    with False digit_decimal [of "n mod 10"] show ?thesis by (subst digits.simps) simp
  qed
qed

subsection \<open>The code of \<^verbatim>\<open>send-otp\<close>\<close>

lemma otp_code_range:
  assumes "is_double random" and "0 \<le> random" and "random < 1"
  shows "\<exists>n. 100000 \<le> n \<and> n \<le> 999999 \<and> otp_code random = digits n"
proof -
  let ?s = "js_add 100000 (js_mul random 900000)"
  from double_below_one [OF assms] have r: "random \<le> 1 - 1 / 2 ^ 53" .
  note p = product_bound [OF assms(2) r]
  note s = sum_bound [OF p]
  from s(1) have "of_int 100000 \<le> ?s" by simp
  then have lo: "100000 \<le> \<lfloor>?s\<rfloor>" by (simp only: le_floor_iff)
  from s(2) have "?s < of_int 1000000" by simp
  then have "\<lfloor>?s\<rfloor> < 1000000" by (simp only: floor_less_iff)
  then have hi: "\<lfloor>?s\<rfloor> \<le> 999999" by simp
  from lo have c: "otp_code random = digits (nat \<lfloor>?s\<rfloor>)"
    by (simp add: otp_code_def toString_def Math_floor_def)
  from lo have lo': "100000 \<le> nat \<lfloor>?s\<rfloor>" by linarith
  from hi have hi': "nat \<lfloor>?s\<rfloor> \<le> 999999" by linarith
  from lo' hi' c show ?thesis by blast
qed

lemma is_double_grid:
  assumes "0 < x" and "x = of_int m * ulp x"
  shows "is_double x"
proof -
  from ulp_pos [of x] have "of_int m * ulp x / ulp x = (of_int m :: rat)" by simp
  with assms(2) have "x / ulp x = of_int m" by simp
  then have "ties_to_even (x / ulp x) = m" by (simp only: ties_int)
  with assms show ?thesis by (simp add: is_double_def round64_pos)
qed

lemma binade_last: "binade (1 - 1 / 2 ^ 53) = - 1"
proof -
  have "\<lceil>1 / (1 - 1 / 2 ^ 53 :: rat)\<rceil> = 2"
    by (simp add: ceiling_eq_iff)
  then show ?thesis by (simp add: binade_def compute_floorlog)
qed

lemma is_double_last: "is_double (1 - 1 / 2 ^ 53)"
proof -
  have u: "ulp (1 - 1 / 2 ^ 53) = 1 / 2 ^ 53"
    unfolding ulp_def binade_last by (simp add: power_int_minus_divide)
  have pos: "0 < (1 - 1 / 2 ^ 53 :: rat)" by simp
  have "(1 - 1 / 2 ^ 53 :: rat) = of_int (2 ^ 53 - 1) * ulp (1 - 1 / 2 ^ 53)"
    unfolding u by simp
  with pos show ?thesis by (rule is_double_grid)
qed

lemma round64_100000: "round64 100000 = 100000"
proof -
  have "binade 100000 = int 16" by (intro binade_eq) simp_all
  then have u: "ulp 100000 = 1 / 2 ^ 36" by (simp add: ulp_def power_int_minus_divide)
  have "is_double 100000"
    by (rule is_double_grid [where m = "100000 * 2 ^ 36"]) (simp_all add: u)
  then show ?thesis by (simp add: is_double_def)
qed

lemma digits_100000: "digits 100000 = ''100000''"
  by (simp add: digits.simps digit_def)

lemma otp_code_zero: "otp_code 0 = ''100000''"
  by (simp add: otp_code_def js_mul_def js_add_def round64_def [of 0] round64_100000
      Math_floor_def toString_def digits_100000)

text \<open>
  The largest value \<^verbatim>\<open>Math.random()\<close> can return gives the largest code.
\<close>

lemma product_last: "js_mul (1 - 1 / 2 ^ 53) 900000 = 900000 - 1 / 2 ^ 33"
proof -
  let ?x = "(1 - 1 / 2 ^ 53) * 900000 :: rat"
  have x: "0 < ?x" by simp
  have u: "ulp ?x = 1 / 2 ^ 33" by (rule ulp_19) simp_all
  have f: "\<lfloor>?x / (1 / 2 ^ 33)\<rfloor> = 900000 * 2 ^ 33 - 1"
    by (simp add: floor_eq_iff)
  have "ties_to_even (?x / (1 / 2 ^ 33)) = 900000 * 2 ^ 33 - 1"
    unfolding ties_to_even_def Let_def f by simp
  then have "of_int (ties_to_even (?x / ulp ?x)) * ulp ?x = 900000 - 1 / 2 ^ 33"
    unfolding u by simp
  with x show ?thesis
    unfolding js_mul_def by (simp only: round64_pos)
qed

lemma sum_last: "js_add 100000 (900000 - 1 / 2 ^ 33) = 1000000 - 1 / 2 ^ 33"
proof -
  let ?y = "100000 + (900000 - 1 / 2 ^ 33) :: rat"
  have y: "0 < ?y" by simp
  have u: "ulp ?y = 1 / 2 ^ 33" by (rule ulp_19) simp_all
  have "?y = of_int (1000000 * 2 ^ 33 - 1) * ulp ?y"
    unfolding u by simp
  with y have "is_double ?y" by (rule is_double_grid)
  then show ?thesis by (simp add: is_double_def js_add_def)
qed

lemma digits_999999: "digits 999999 = ''999999''"
  by (simp add: digits.simps digit_def)

lemma otp_code_last: "otp_code (1 - 1 / 2 ^ 53) = ''999999''"
proof -
  have "\<lfloor>1000000 - 1 / 2 ^ 33 :: rat\<rfloor> = 999999"
    by (simp add: floor_eq_iff)
  then show ?thesis
    unfolding otp_code_def product_last sum_last Math_floor_def toString_def
    by (simp add: digits_999999)
qed

text \<open>
  C9. \<^verbatim>\<open>Math.random()\<close> returns a number that is at least 0 and below 1. For every
  such number the code \<^verbatim>\<open>Math.floor(100000 + Math.random() * 900000).toString()\<close>
  is the decimal string of an integer from 100000 to 999999: six decimal digits,
  the first of them not a zero.
\<close>

theorem otp_code_six_digits:
  assumes "is_double random" and "0 \<le> random" and "random < 1"
  shows "\<exists>n. 100000 \<le> n \<and> n \<le> 999999 \<and> otp_code random = digits n
       \<and> length (otp_code random) = 6
       \<and> hd (otp_code random) \<noteq> CHR ''0''
       \<and> set (otp_code random) \<subseteq> set ''0123456789''"
proof -
  from otp_code_range [OF assms] obtain n
    where lo: "100000 \<le> n" and hi: "n \<le> 999999" and c: "otp_code random = digits n"
    by blast
  from lo hi have "10 ^ 5 \<le> n" and "n < 10 ^ Suc 5" by simp_all
  then have "length (digits n) = Suc 5" by (rule length_digits)
  then have len: "length (otp_code random) = 6" by (simp add: c)
  from lo have "0 < n" by simp
  then have "hd (digits n) \<noteq> CHR ''0''" by (rule hd_digits)
  then have h: "hd (otp_code random) \<noteq> CHR ''0''" by (simp add: c)
  have s: "set (otp_code random) \<subseteq> set ''0123456789''"
    unfolding c by (rule set_digits)
  from lo hi c len h s show ?thesis by blast
qed

theorem otp_code_six_digits_witness:
  "is_double (1 - 1 / 2 ^ 53) \<and> (0::rat) \<le> 1 - 1 / 2 ^ 53 \<and> (1 - 1 / 2 ^ 53 :: rat) < 1
   \<and> (\<exists>n. 100000 \<le> n \<and> n \<le> 999999 \<and> otp_code (1 - 1 / 2 ^ 53) = digits n
       \<and> length (otp_code (1 - 1 / 2 ^ 53)) = 6
       \<and> hd (otp_code (1 - 1 / 2 ^ 53)) \<noteq> CHR ''0''
       \<and> set (otp_code (1 - 1 / 2 ^ 53)) \<subseteq> set ''0123456789'')"
proof -
  have a: "(0::rat) \<le> 1 - 1 / 2 ^ 53" by simp
  have b: "(1 - 1 / 2 ^ 53 :: rat) < 1" by simp
  show ?thesis
    by (intro conjI is_double_last a b otp_code_six_digits [OF is_double_last a b])
qed

section \<open>The relay\<close>

subsection \<open>The tee and the three ways a call of the relay ends\<close>

lemma tee_fold:
  "fold (\<lambda>fragment acc. res_write acc fragment) fs (full, res) =
     (full @ concat fs, res\<lparr>written := written res @ fs\<rparr>)"
  by (induction fs arbitrary: full res) (simp_all add: res_write_def originalWrite_def)

lemma streamChat_tee:
  "streamChat client res_write (full, res) history =
     ((full @ concat (fragments (client history)),
       res\<lparr>written := written res @ fragments (client history)\<rparr>),
      if fails (client history) then Some UpstreamError else None)"
  by (simp add: streamChat_def Let_def tee_fold)

lemma select_messages_append:
  "select_messages (d\<lparr>messages := messages d @ [\<lparr>m_chat_id = c, m_role = r, m_content = x\<rparr>]\<rparr>) c'
     = select_messages d c' @ (if c = c' then [(r, x)] else [])"
  by (simp add: select_messages_def)

lemma chat_stream_completes:
  assumes "auth t = Some user"
    and "chatId \<in> set (map c_id (chats d))"
    and "\<not> fails (client (select_messages d chatId @ [(''user'', message)]))"
  shows "chat_stream client d t chatId message =
     \<lparr>result = Ended,
      store = d\<lparr>messages := messages d @
        [\<lparr>m_chat_id = chatId, m_role = ''user'', m_content = message\<rparr>,
         \<lparr>m_chat_id = chatId, m_role = ''assistant'',
          m_content = concat (fragments (client (select_messages d chatId @ [(''user'', message)])))\<rparr>]\<rparr>,
      response = \<lparr>headers = [(''Content-Type'', ''text/plain; charset=utf-8''),
                             (''Transfer-Encoding'', ''chunked'')],
                  written = fragments (client (select_messages d chatId @ [(''user'', message)])),
                  ended = True\<rparr>,
      asked = [select_messages d chatId @ [(''user'', message)]]\<rparr>"
  using assms
  by (simp add: chat_stream_def insert_message_def Let_def streamChat_tee
      select_messages_append setHeader_def fresh_channel_def)

lemma chat_stream_breaks:
  assumes "auth t = Some user"
    and "chatId \<in> set (map c_id (chats d))"
    and "fails (client (select_messages d chatId @ [(''user'', message)]))"
  shows "chat_stream client d t chatId message =
     \<lparr>result = Rejected UpstreamError,
      store = d\<lparr>messages := messages d @
        [\<lparr>m_chat_id = chatId, m_role = ''user'', m_content = message\<rparr>]\<rparr>,
      response = \<lparr>headers = [(''Content-Type'', ''text/plain; charset=utf-8''),
                             (''Transfer-Encoding'', ''chunked'')],
                  written = fragments (client (select_messages d chatId @ [(''user'', message)])),
                  ended = False\<rparr>,
      asked = [select_messages d chatId @ [(''user'', message)]]\<rparr>"
  using assms
  by (simp add: chat_stream_def insert_message_def Let_def streamChat_tee
      select_messages_append setHeader_def fresh_channel_def)

lemma chat_stream_unknown:
  assumes "auth t = Some user"
    and "chatId \<notin> set (map c_id (chats d))"
  shows "chat_stream client d t chatId message =
     \<lparr>result = Rejected SessionNotFound, store = d,
      response = \<lparr>headers = [(''Content-Type'', ''text/plain; charset=utf-8''),
                             (''Transfer-Encoding'', ''chunked'')],
                  written = [], ended = False\<rparr>,
      asked = []\<rparr>"
  using assms
  by (simp add: chat_stream_def insert_message_def Let_def setHeader_def fresh_channel_def)

lemma sample_auth: "auth (Signed alice) = Some alice"
  by (simp add: auth_def)

lemma sample_chat: "(1::nat) \<in> set (map c_id (chats sample_db))"
  by (simp add: sample_db_def)

lemma sample_history: "select_messages sample_db 1 = [(''user'', ''hi'')]"
  by (simp add: sample_db_def select_messages_def)

subsection \<open>What is written is what is committed\<close>




subsection \<open>A stream that breaks\<close>

text \<open>
  C2, as stated, fails: the provider yields \<open>"I am "\<close> and \<open>"fine, thanks"\<close> and
  then breaks; afterwards the chat holds the two user messages and no assistant
  message.
\<close>

theorem relay_partial_commit_counterexample:
  "fails (broken_client [(''user'', ''hi''), (''user'', ''how are you'')])
   \<and> fragments (broken_client [(''user'', ''hi''), (''user'', ''how are you'')])
       = [''I am '', ''fine, thanks'']
   \<and> select_messages (store (chat_stream broken_client sample_db (Signed alice) 1 ''how are you'')) 1
       = [(''user'', ''hi''), (''user'', ''how are you'')]
   \<and> (''assistant'', ''I am fine, thanks'') \<notin>
       set (select_messages
         (store (chat_stream broken_client sample_db (Signed alice) 1 ''how are you'')) 1)"
  by (simp add: chat_stream_def auth_def sample_db_def broken_client_def insert_message_def
      select_messages_def streamChat_def res_write_def originalWrite_def setHeader_def
      fresh_channel_def Let_def)

text \<open>
  C2, amended. When the provider's stream breaks after yielding fragments, these
  fragments have been written to the response, the tables hold the user message
  and nothing after it (no assistant message is committed), the handler ends with
  the \<open>UpstreamError\<close> without ending the response, and \<open>streamChat\<close> was called
  once.
\<close>

theorem relay_upstream_failure:
  assumes "auth t = Some user"
    and "chatId \<in> set (map c_id (chats d))"
    and "fails (client (select_messages d chatId @ [(''user'', message)]))"
  shows "written (response (chat_stream client d t chatId message)) =
           fragments (client (select_messages d chatId @ [(''user'', message)]))
       \<and> messages (store (chat_stream client d t chatId message)) =
           messages d @ [\<lparr>m_chat_id = chatId, m_role = ''user'', m_content = message\<rparr>]
       \<and> result (chat_stream client d t chatId message) = Rejected UpstreamError
       \<and> \<not> ended (response (chat_stream client d t chatId message))
       \<and> length (asked (chat_stream client d t chatId message)) = 1"
  using chat_stream_breaks [where client = client, OF assms] by simp

theorem relay_upstream_failure_witness:
  "written (response (chat_stream broken_client sample_db (Signed alice) 1 ''how are you'')) =
           fragments (broken_client (select_messages sample_db 1 @ [(''user'', ''how are you'')]))
       \<and> messages (store (chat_stream broken_client sample_db (Signed alice) 1 ''how are you'')) =
           messages sample_db @ [\<lparr>m_chat_id = 1, m_role = ''user'', m_content = ''how are you''\<rparr>]
       \<and> result (chat_stream broken_client sample_db (Signed alice) 1 ''how are you'')
           = Rejected UpstreamError
       \<and> \<not> ended (response (chat_stream broken_client sample_db (Signed alice) 1 ''how are you''))
       \<and> length (asked (chat_stream broken_client sample_db (Signed alice) 1 ''how are you'')) = 1"
proof -
  have c: "fails (broken_client (select_messages sample_db 1 @ [(''user'', ''how are you'')]))"
    by (simp add: broken_client_def)
  show ?thesis
    by (rule relay_upstream_failure [where client = broken_client, OF sample_auth sample_chat c])
qed

subsection \<open>The history handed to the provider\<close>



subsection \<open>Reading a chat back\<close>

lemma append_all_rows:
  "\<forall>m\<in>set ms. fst m \<in> set (map c_id (chats d)) \<Longrightarrow>
     append_all d ms = Inr (d\<lparr>messages := messages d @ map row_of ms\<rparr>)"
proof (induction ms arbitrary: d)
  case Nil
  show ?case by simp
next
  case (Cons m ms)
  obtain c r x where m: "m = (c, r, x)" by (cases m)
  let ?d' = "d\<lparr>messages := messages d @ [row_of m]\<rparr>"
  from Cons.prems m have ins: "insert_message d c r x = Inr ?d'"
    by (simp add: insert_message_def row_of_def)
  from Cons.prems have "\<forall>m\<in>set ms. fst m \<in> set (map c_id (chats ?d'))"
    by simp
  from Cons.IH [OF this] ins m show ?case
    by simp
qed

lemma select_messages_rows:
  "select_messages (d\<lparr>messages := messages d @ map row_of ms\<rparr>) chatId =
     select_messages d chatId @ map snd (filter (\<lambda>m. fst m = chatId) ms)"
  by (induction ms rule: rev_induct) (auto simp: select_messages_def row_of_def)

lemma chat_stream_asked:
  assumes "auth t = Some user"
    and "chatId \<in> set (map c_id (chats d))"
  shows "asked (chat_stream client d t chatId message) =
           [select_messages d chatId @ [(''user'', message)]]"
proof (cases "fails (client (select_messages d chatId @ [(''user'', message)]))")
  case True
  from chat_stream_breaks [where client = client, OF assms True] show ?thesis by simp
next
  case False
  from chat_stream_completes [where client = client, OF assms False] show ?thesis by simp
qed

lemma select_messages_none:
  "chatId \<notin> set (map m_chat_id (messages d)) \<Longrightarrow> select_messages d chatId = []"
  by (auto simp: select_messages_def filter_empty_conv)

text \<open>
  C4. Appending any sequence of messages to existing chats succeeds, and reading
  a chat back afterwards, both through \<^verbatim>\<open>GET /api/messages/:chatId\<close> and as the
  history the relay loads (which the relay extends by the user message it has
  just appended), gives the messages the chat had before followed by the appended
  messages of that chat in the order they were appended, so exactly the appended
  ones when the chat was empty; a chat with no messages reads back as the empty
  list with status 200.
\<close>

theorem messages_read_back_in_order:
  assumes "set (map fst ms) \<subseteq> set (map c_id (chats d))"
  shows "(\<exists>d'. append_all d ms = Inr d'
         \<and> select_messages d' chatId =
             select_messages d chatId @ map snd (filter (\<lambda>m. fst m = chatId) ms)
         \<and> get_messages d' (Signed user) chatId = Replied 200 (JRows (select_messages d' chatId))
         \<and> (chatId \<in> set (map c_id (chats d)) \<longrightarrow>
              asked (chat_stream client d' (Signed user) chatId message) =
                [select_messages d' chatId @ [(''user'', message)]]))
       \<and> (chatId \<notin> set (map m_chat_id (messages d)) \<longrightarrow>
            get_messages d (Signed user) chatId = Replied 200 (JRows []))"
proof -
  let ?d' = "d\<lparr>messages := messages d @ map row_of ms\<rparr>"
  from assms have "\<forall>m\<in>set ms. fst m \<in> set (map c_id (chats d))"
    by auto
  then have a: "append_all d ms = Inr ?d'"
    by (rule append_all_rows)
  have s: "select_messages ?d' chatId =
      select_messages d chatId @ map snd (filter (\<lambda>m. fst m = chatId) ms)"
    by (rule select_messages_rows)
  have g: "get_messages d0 (Signed user) chatId = Replied 200 (JRows (select_messages d0 chatId))"
    for d0
    by (simp add: get_messages_def auth_def)
  have h: "chatId \<in> set (map c_id (chats d)) \<longrightarrow>
      asked (chat_stream client ?d' (Signed user) chatId message) =
        [select_messages ?d' chatId @ [(''user'', message)]]"
  proof
    assume "chatId \<in> set (map c_id (chats d))"
    then have c: "chatId \<in> set (map c_id (chats ?d'))" by simp
    have u: "auth (Signed user) = Some user" by (simp add: auth_def)
    from u c show "asked (chat_stream client ?d' (Signed user) chatId message) =
        [select_messages ?d' chatId @ [(''user'', message)]]"
      by (rule chat_stream_asked)
  qed
  have e: "chatId \<notin> set (map m_chat_id (messages d)) \<longrightarrow>
      get_messages d (Signed user) chatId = Replied 200 (JRows [])"
    by (simp add: g select_messages_none)
  from a s g [of ?d'] h have ex: "\<exists>d'. append_all d ms = Inr d'
         \<and> select_messages d' chatId =
             select_messages d chatId @ map snd (filter (\<lambda>m. fst m = chatId) ms)
         \<and> get_messages d' (Signed user) chatId = Replied 200 (JRows (select_messages d' chatId))
         \<and> (chatId \<in> set (map c_id (chats d)) \<longrightarrow>
              asked (chat_stream client d' (Signed user) chatId message) =
                [select_messages d' chatId @ [(''user'', message)]])"
    by blast
  from ex e show ?thesis ..
qed

theorem messages_read_back_in_order_witness:
  "set (map fst more_messages) \<subseteq> set (map c_id (chats sample_db))
   \<and> (\<exists>d'. append_all sample_db more_messages = Inr d'
       \<and> select_messages d' 1 =
           [(''user'', ''hi''), (''user'', ''how are you''), (''assistant'', ''fine'')]
       \<and> get_messages d' (Signed bob) 1 =
           Replied 200 (JRows
             [(''user'', ''hi''), (''user'', ''how are you''), (''assistant'', ''fine'')])
       \<and> asked (chat_stream fine_client d' (Signed bob) 1 ''thanks'') =
           [[(''user'', ''hi''), (''user'', ''how are you''), (''assistant'', ''fine''),
             (''user'', ''thanks'')]])
   \<and> 2 \<notin> set (map m_chat_id (messages sample_db))
   \<and> get_messages sample_db (Signed bob) 2 = Replied 200 (JRows [])"
proof -
  have a: "set (map fst more_messages) \<subseteq> set (map c_id (chats sample_db))"
    by (simp add: sample_db_def more_messages_def)
  have n: "2 \<notin> set (map m_chat_id (messages sample_db))"
    by (simp add: sample_db_def)
  note one = messages_read_back_in_order
    [where client = fine_client and user = bob and chatId = 1 and message = "''thanks''", OF a]
  note two = messages_read_back_in_order
    [where client = fine_client and user = bob and chatId = 2 and message = "''thanks''", OF a]
  from one obtain d' where ap: "append_all sample_db more_messages = Inr d'"
    and sel: "select_messages d' 1 =
      select_messages sample_db 1 @ map snd (filter (\<lambda>m. fst m = 1) more_messages)"
    and get: "get_messages d' (Signed bob) 1 = Replied 200 (JRows (select_messages d' 1))"
    and ask: "1 \<in> set (map c_id (chats sample_db)) \<longrightarrow>
      asked (chat_stream fine_client d' (Signed bob) 1 ''thanks'') =
        [select_messages d' 1 @ [(''user'', ''thanks'')]]"
    by blast
  have sel': "select_messages d' 1 =
      [(''user'', ''hi''), (''user'', ''how are you''), (''assistant'', ''fine'')]"
    unfolding sel sample_history more_messages_def by simp
  from get sel' have get': "get_messages d' (Signed bob) 1 =
      Replied 200 (JRows [(''user'', ''hi''), (''user'', ''how are you''), (''assistant'', ''fine'')])"
    by simp
  from ask sample_chat sel' have ask': "asked (chat_stream fine_client d' (Signed bob) 1 ''thanks'') =
      [[(''user'', ''hi''), (''user'', ''how are you''), (''assistant'', ''fine''),
        (''user'', ''thanks'')]]"
    by simp
  from ap sel' get' ask' have ex: "\<exists>d'. append_all sample_db more_messages = Inr d'
       \<and> select_messages d' 1 =
           [(''user'', ''hi''), (''user'', ''how are you''), (''assistant'', ''fine'')]
       \<and> get_messages d' (Signed bob) 1 =
           Replied 200 (JRows
             [(''user'', ''hi''), (''user'', ''how are you''), (''assistant'', ''fine'')])
       \<and> asked (chat_stream fine_client d' (Signed bob) 1 ''thanks'') =
           [[(''user'', ''hi''), (''user'', ''how are you''), (''assistant'', ''fine''),
             (''user'', ''thanks'')]]"
    by blast
  from two n have empty: "get_messages sample_db (Signed bob) 2 = Replied 200 (JRows [])"
    by blast
  from a ex n empty show ?thesis
    by (intro conjI)
qed

subsection \<open>A chat that does not exist\<close>

text \<open>
  C5. When the chat id of an authenticated request names no chat, appending the
  user message fails with \<open>SessionNotFound\<close>, the handler ends with that error, the
  tables are unchanged (no message row is created), \<open>streamChat\<close> is not called
  and nothing is written to the response.
\<close>

theorem unknown_session_rejected:
  assumes "auth t = Some user"
    and "chatId \<notin> set (map c_id (chats d))"
  shows "insert_message d chatId ''user'' message = Inl SessionNotFound
       \<and> result (chat_stream client d t chatId message) = Rejected SessionNotFound
       \<and> store (chat_stream client d t chatId message) = d
       \<and> asked (chat_stream client d t chatId message) = []
       \<and> written (response (chat_stream client d t chatId message)) = []"
  using chat_stream_unknown [where client = client, OF assms] assms(2)
  by (simp add: insert_message_def)

theorem unknown_session_rejected_witness:
  "(7::nat) \<notin> set (map c_id (chats sample_db))
   \<and> insert_message sample_db 7 ''user'' ''how are you'' = Inl SessionNotFound
   \<and> result (chat_stream fine_client sample_db (Signed alice) 7 ''how are you'')
       = Rejected SessionNotFound
   \<and> store (chat_stream fine_client sample_db (Signed alice) 7 ''how are you'') = sample_db
   \<and> asked (chat_stream fine_client sample_db (Signed alice) 7 ''how are you'') = []
   \<and> written (response (chat_stream fine_client sample_db (Signed alice) 7 ''how are you'')) = []"
proof -
  have a: "(7::nat) \<notin> set (map c_id (chats sample_db))"
    by (simp add: sample_db_def)
  show ?thesis
    by (intro conjI a unknown_session_rejected [where client = fine_client, OF sample_auth a])
qed

subsection \<open>Who may read a chat\<close>

text \<open>
  C6, as stated, fails: the only chat of the sample tables belongs to user 1, and
  the request of user 2 for its messages is answered 200 with the messages.
\<close>

theorem foreign_session_counterexample:
  "chats sample_db = [\<lparr>c_id = 1, c_user_id = 1, c_title = ''New Chat''\<rparr>]
   \<and> p_id bob = 2
   \<and> get_messages sample_db (Signed bob) 1 = Replied 200 (JRows [(''user'', ''hi'')])"
  by (simp add: sample_db_def bob_def get_messages_def auth_def select_messages_def)

text \<open>
  C6, amended. For every authenticated caller, \<^verbatim>\<open>GET /api/messages/:chatId\<close>
  answers 200 with the messages of the chat, whoever owns it; the two endpoints
  that take a chat id check that the caller is authenticated and nothing else:
  what they do is the same for any two authenticated callers.
\<close>

theorem session_endpoints_ignore_owner:
  assumes "auth t = Some user" and "auth t' = Some user'"
  shows "get_messages d t chatId = Replied 200 (JRows (select_messages d chatId))
       \<and> get_messages d t' chatId = get_messages d t chatId
       \<and> chat_stream client d t' chatId message = chat_stream client d t chatId message"
  using assms by (simp add: get_messages_def chat_stream_def)

theorem session_endpoints_ignore_owner_witness:
  "auth (Signed alice) = Some alice \<and> auth (Signed bob) = Some bob
   \<and> get_messages sample_db (Signed alice) 1 = Replied 200 (JRows (select_messages sample_db 1))
   \<and> get_messages sample_db (Signed bob) 1 = get_messages sample_db (Signed alice) 1
   \<and> chat_stream fine_client sample_db (Signed bob) 1 ''how are you''
       = chat_stream fine_client sample_db (Signed alice) 1 ''how are you''"
proof -
  have b: "auth (Signed bob) = Some bob"
    by (simp add: auth_def)
  show ?thesis
    by (intro conjI sample_auth b
        session_endpoints_ignore_owner [where client = fine_client, OF sample_auth b])
qed

section \<open>One-time codes\<close>

subsection \<open>What the handlers do to the table of codes\<close>

lemma find_append_none:
  "find P xs = None \<Longrightarrow> find P (xs @ ys) = find P ys"
  by (induction xs) (auto split: if_splits)

lemma otps_chat_stream: "otps (store (chat_stream client d t chatId message)) = otps d"
  by (auto simp: chat_stream_def insert_message_def Let_def streamChat_tee
      split: option.splits if_splits)

lemma otps_send_otp:
  "otps (snd (send_otp d email random now mail_ok)) =
     filter (\<lambda>r. o_email r \<noteq> email) (otps d) @
       [\<lparr>o_email = email, o_code = otp_code random, o_expires_at = now + 300000\<rparr>]"
  by (simp add: send_otp_def Let_def insert_otp_def delete_otps_def)

lemma otps_verify_otp:
  "otps (snd (verify_otp d email code now)) = otps d \<or>
   otps (snd (verify_otp d email code now)) = filter (\<lambda>r. o_email r \<noteq> email) (otps d)"
  by (simp add: verify_otp_def delete_otps_def verify_user_def split: option.splits)

lemma otps_register: "otps (snd (register h d email password)) = otps d"
  by (simp add: register_def insert_user_def Let_def)

lemma otps_create_chat: "otps (snd (create_chat d t)) = otps d"
  by (simp add: create_chat_def insert_chat_def Let_def split: option.splits)

lemma serve_keeps_one_code:
  assumes "distinct (map o_email (otps d))"
  shows "distinct (map o_email (otps (serve h d r)))"
proof (cases r)
  case (Register email password)
  with assms show ?thesis by (simp add: otps_register)
next
  case (SendOtp email random now mail_ok)
  with assms show ?thesis
    by (auto simp: otps_send_otp distinct_map_filter)
next
  case (VerifyOtp email code now)
  with assms otps_verify_otp [of d email code now] show ?thesis
    by (auto simp: distinct_map_filter)
next
  case (Login email password)
  with assms show ?thesis by simp
next
  case (CreateChat t)
  with assms show ?thesis by (simp add: otps_create_chat)
next
  case (ChatStream client t chatId message)
  with assms show ?thesis by (simp add: otps_chat_stream)
next
  case (GetMessages t chatId)
  with assms show ?thesis by simp
qed

lemma serve_all_keeps_one_code:
  "distinct (map o_email (otps d)) \<Longrightarrow> distinct (map o_email (otps (serve_all h d rs)))"
  by (induction rs arbitrary: d) (simp_all add: serve_keeps_one_code)

text \<open>
  C7. Whatever requests the server has served, one after the other, starting
  from empty tables, the table of codes holds at most one row for each email; and
  right after \<^verbatim>\<open>send-otp\<close> the rows for the email are exactly the one new row, with
  the new code and the expiry \<open>now + 5 * 60 * 1000\<close>: every earlier code for that
  email is gone.
\<close>

theorem one_live_code_per_email:
  "length (filter (\<lambda>r. o_email r = email) (otps (serve_all h empty_db rs))) \<le> 1
   \<and> filter (\<lambda>r. o_email r = email) (otps (snd (send_otp d email random now mail_ok))) =
       [\<lparr>o_email = email, o_code = otp_code random, o_expires_at = now + 5 * 60 * 1000\<rparr>]"
proof -
  have "distinct (map o_email (otps (serve_all h empty_db rs)))"
    by (rule serve_all_keeps_one_code) (simp add: empty_db_def)
  then have "distinct (map o_email (filter (\<lambda>r. o_email r = email) (otps (serve_all h empty_db rs))))"
    by (rule distinct_map_filter)
  moreover have "set (map o_email (filter (\<lambda>r. o_email r = email) (otps (serve_all h empty_db rs))))
      \<subseteq> {email}"
    by auto
  ultimately have "length (map o_email (filter (\<lambda>r. o_email r = email) (otps (serve_all h empty_db rs))))
      \<le> card {email}"
    by (metis distinct_card card_mono finite.emptyI finite.insertI)
  then have one: "length (filter (\<lambda>r. o_email r = email) (otps (serve_all h empty_db rs))) \<le> 1"
    by simp
  have two: "filter (\<lambda>r. o_email r = email) (otps (snd (send_otp d email random now mail_ok))) =
       [\<lparr>o_email = email, o_code = otp_code random, o_expires_at = now + 5 * 60 * 1000\<rparr>]"
    by (simp add: otps_send_otp)
  from one two show ?thesis ..
qed

theorem one_live_code_per_email_witness:
  "length (filter (\<lambda>r. o_email r = ''c@example.com'')
     (otps (serve_all rev empty_db
        [Register ''c@example.com'' ''secret'',
         SendOtp ''c@example.com'' 0 1000 True,
         SendOtp ''c@example.com'' (1 / 2) 2000 True]))) \<le> 1
   \<and> filter (\<lambda>r. o_email r = ''c@example.com'')
       (otps (snd (send_otp issued_db ''c@example.com'' (1 / 2) 2000 True))) =
       [\<lparr>o_email = ''c@example.com'', o_code = otp_code (1 / 2),
         o_expires_at = 2000 + 5 * 60 * 1000\<rparr>]"
  by (rule one_live_code_per_email)

subsection \<open>Verifying a code\<close>

lemma users_delete_otps: "users (delete_otps d email) = users d"
  by (simp add: delete_otps_def)

lemma verify_user_verified:
  assumes "u \<in> set (users (verify_user d email))" and "u_email u = email"
  shows "u_verified u"
proof -
  from assms(1) obtain v where v: "v \<in> set (users d)"
    and u: "u = (if u_email v = email then v\<lparr>u_verified := True\<rparr> else v)"
    by (auto simp: verify_user_def)
  show ?thesis
  proof (cases "u_email v = email")
    case True
    with u show ?thesis by simp
  next
    case False
    with u assms(2) show ?thesis by simp
  qed
qed

lemma get_otp_after_send:
  "get_otp (snd (send_otp d email random now mail_ok)) email code =
     (if code = otp_code random
      then Some \<lparr>o_email = email, o_code = otp_code random, o_expires_at = now + 300000\<rparr>
      else None)"
  by (simp add: get_otp_def otps_send_otp find_append_none find_None_iff)

lemma get_otp_after_delete: "get_otp (delete_otps d email) email code = None"
  by (simp add: get_otp_def delete_otps_def find_None_iff)

text \<open>
  C8. After a code was issued for an email: verifying with any other code is
  answered 400 and changes nothing; verifying with the code no later than its
  expiry is answered 200, marks every account with that email verified and
  removes the code; verifying with the same code again, at any time, is answered
  400.
\<close>

theorem otp_verifies_exactly_once:
  assumes "d1 = snd (send_otp d email random issued mail_ok)"
    and "wrong \<noteq> otp_code random"
    and "now \<le> issued + 5 * 60 * 1000"
    and "d2 = snd (verify_otp d1 email (otp_code random) now)"
  shows "verify_otp d1 email wrong t = (Replied 400 (JError ''OTP invalid / expired''), d1)
       \<and> verify_otp d1 email (otp_code random) now = (Replied 200 JOk, d2)
       \<and> list_all u_verified (filter (\<lambda>u. u_email u = email) (users d2))
       \<and> filter (\<lambda>r. o_email r = email) (otps d2) = []
       \<and> verify_otp d2 email (otp_code random) t' = (Replied 400 (JError ''OTP invalid / expired''), d2)"
proof -
  have w: "verify_otp d1 email wrong t = (Replied 400 (JError ''OTP invalid / expired''), d1)"
    using assms(1,2) by (simp add: verify_otp_def get_otp_after_send)
  have d2: "d2 = delete_otps (verify_user d1 email) email"
    using assms(1,3,4) by (simp add: verify_otp_def get_otp_after_send)
  have ok: "verify_otp d1 email (otp_code random) now = (Replied 200 JOk, d2)"
    using assms(1,3) d2 by (simp add: verify_otp_def get_otp_after_send)
  have "\<forall>u\<in>set (users d2). u_email u = email \<longrightarrow> u_verified u"
    unfolding d2 users_delete_otps using verify_user_verified by blast
  then have v: "list_all u_verified (filter (\<lambda>u. u_email u = email) (users d2))"
    by (simp add: list_all_iff)
  have gone: "filter (\<lambda>r. o_email r = email) (otps d2) = []"
    unfolding d2 by (simp add: delete_otps_def)
  have again: "verify_otp d2 email (otp_code random) t' =
      (Replied 400 (JError ''OTP invalid / expired''), d2)"
    unfolding d2 by (simp add: verify_otp_def get_otp_after_delete)
  from w ok v gone again show ?thesis by simp
qed

theorem otp_verifies_exactly_once_witness:
  "''000000'' \<noteq> otp_code 0 \<and> (2000::int) \<le> 1000 + 5 * 60 * 1000
   \<and> verify_otp issued_db ''c@example.com'' ''000000'' 1500
       = (Replied 400 (JError ''OTP invalid / expired''), issued_db)
   \<and> verify_otp issued_db ''c@example.com'' (otp_code 0) 2000 = (Replied 200 JOk, verified_db)
   \<and> list_all u_verified (filter (\<lambda>u. u_email u = ''c@example.com'') (users verified_db))
   \<and> filter (\<lambda>r. o_email r = ''c@example.com'') (otps verified_db) = []
   \<and> verify_otp verified_db ''c@example.com'' (otp_code 0) 3000
       = (Replied 400 (JError ''OTP invalid / expired''), verified_db)"
proof -
  have a: "''000000'' \<noteq> otp_code 0"
    by (simp add: otp_code_zero)
  have b: "(2000::int) \<le> 1000 + 5 * 60 * 1000"
    by simp
  show ?thesis
    by (intro conjI a b otp_verifies_exactly_once [OF issued_db_def a b verified_db_def, THEN conjunct1]
        otp_verifies_exactly_once [OF issued_db_def a b verified_db_def, THEN conjunct2])
qed

subsection \<open>Logging in\<close>

text \<open>
  C10. For an account that is registered but not verified, \<^verbatim>\<open>login\<close> answers 403
  "Email not verified" whatever the password: the answer is the same for any two
  passwords, and for any two behaviours of \<^verbatim>\<open>bcrypt.compare\<close>, which is never
  called.
\<close>

theorem login_unverified_ignores_password:
  assumes "get_user d email = Some user" and "\<not> u_verified user"
  shows "login cmp d email password = Replied 403 (JError ''Email not verified'')
       \<and> login cmp' d email password' = login cmp d email password"
  using assms by (simp add: login_def)

theorem login_unverified_ignores_password_witness:
  "get_user sample_db ''c@example.com'' =
     Some \<lparr>u_id = 3, u_email = ''c@example.com'', u_password = ''hash-c'', u_verified = False\<rparr>
   \<and> \<not> u_verified
       \<lparr>u_id = 3, u_email = ''c@example.com'', u_password = ''hash-c'', u_verified = False\<rparr>
   \<and> login same_string sample_db ''c@example.com'' ''hash-c''
       = Replied 403 (JError ''Email not verified'')
   \<and> login same_string sample_db ''c@example.com'' ''guess''
       = login same_string sample_db ''c@example.com'' ''hash-c''"
proof -
  have a: "get_user sample_db ''c@example.com'' =
     Some \<lparr>u_id = 3, u_email = ''c@example.com'', u_password = ''hash-c'', u_verified = False\<rparr>"
    by (simp add: get_user_def sample_db_def)
  have b: "\<not> u_verified
       \<lparr>u_id = 3, u_email = ''c@example.com'', u_password = ''hash-c'', u_verified = False\<rparr>"
    by simp
  show ?thesis
    by (intro conjI a b
        login_unverified_ignores_password [OF a b, THEN conjunct1]
        login_unverified_ignores_password [OF a b, THEN conjunct2])
qed

end
